theory Spec2Isabelle
  imports Main "HOL-Library.Multiset"
begin

section \<open>Data model\<close>

text \<open>
  Metadata values are arbitrary Python objects in the source; the model covers the
  values whose \<^verbatim>\<open>str\<close> is fixed by the language: strings, integers, booleans
  and \<^verbatim>\<open>None\<close>. For all of them the f-string \<^verbatim>\<open>f", {v}"\<close> formats
  \<^verbatim>\<open>v\<close> exactly as \<^verbatim>\<open>str(v)\<close> does.
\<close>

datatype pyval = PStr string | PInt int | PBool bool | PNone

text \<open>
  A Python dict keeps insertion order and has distinct keys: an association list,
  read with \<open>dict_get\<close> and written with \<open>dict_set\<close> (an existing key keeps its
  place, a new key goes to the end).
\<close>

type_synonym 'v dict = "(string \<times> 'v) list"

record document =
  page_content :: string
  metadata :: "pyval dict"

text \<open>
  The exceptions the module can raise by itself: the \<^verbatim>\<open>ValueError\<close> of
  \<^verbatim>\<open>split_list_of_docs\<close> with its message, the \<^verbatim>\<open>IndexError\<close> of
  \<^verbatim>\<open>docs[0]\<close> on an empty group, and the \<^verbatim>\<open>TypeError\<close> of comparing
  \<^verbatim>\<open>None\<close> with an integer.
\<close>

datatype error = ValueError string | IndexError | TypeError

section \<open>The partitioner\<close>

text \<open>
  \<^verbatim>\<open>split_list_of_docs\<close>, lines 219 to 248. The loop state is the pair
  \<^verbatim>\<open>new_result_doc_list\<close>, \<^verbatim>\<open>_sub_result_docs\<close>. The length function
  may return \<^verbatim>\<open>None\<close> (\<^verbatim>\<open>prompt_length\<close> is \<^verbatim>\<open>Optional[int]\<close>),
  and \<^verbatim>\<open>None > token_max\<close> raises. The slices \<^verbatim>\<open>[:-1]\<close> and
  \<^verbatim>\<open>[-1:]\<close> are written out with \<open>take\<close> and \<open>drop\<close>.
\<close>

definition too_long_message :: string where
  "too_long_message =
     ''A single document was longer than the context length, we cannot handle this.''"

fun split_loop ::
  "('d list \<Rightarrow> int option) \<Rightarrow> int \<Rightarrow> 'd list \<Rightarrow> 'd list list \<Rightarrow> 'd list
     \<Rightarrow> error + 'd list list" where
  "split_loop length_func tmax [] new_result_doc_list sub_result_docs =
     Inr (new_result_doc_list @ [sub_result_docs])"
| "split_loop length_func tmax (doc # docs) new_result_doc_list sub_result_docs =
     (let sub = sub_result_docs @ [doc] in
      case length_func sub of
        None \<Rightarrow> Inl TypeError
      | Some num_tokens \<Rightarrow>
          if num_tokens > tmax then
            if length sub = 1 then Inl (ValueError too_long_message)
            else split_loop length_func tmax docs
                   (new_result_doc_list @ [take (length sub - 1) sub])
                   (drop (length sub - 1) sub)
          else split_loop length_func tmax docs new_result_doc_list sub)"

definition split_list_of_docs ::
  "'d list \<Rightarrow> ('d list \<Rightarrow> int option) \<Rightarrow> int \<Rightarrow> error + 'd list list" where
  "split_list_of_docs docs length_func tmax = split_loop length_func tmax docs [] []"

text \<open>A group is within the budget when its measured cost is at most the budget.\<close>

definition within_budget :: "('d list \<Rightarrow> int option) \<Rightarrow> int \<Rightarrow> 'd list \<Rightarrow> bool" where
  "within_budget length_func tmax g \<longleftrightarrow>
     (case length_func g of None \<Rightarrow> False | Some n \<Rightarrow> n \<le> tmax)"

section \<open>Metadata merge and the collapser\<close>

text \<open>
  \<^verbatim>\<open>str\<close> on the modelled values. An integer prints in decimal with a leading
  minus sign when negative.
\<close>

fun str_nat :: "nat \<Rightarrow> string" where
  "str_nat n = (if n < 10 then [''0123456789'' ! n]
                else str_nat (n div 10) @ [''0123456789'' ! (n mod 10)])"

declare str_nat.simps [simp del]

definition str_int :: "int \<Rightarrow> string" where
  "str_int i = (if i < 0 then ''-'' @ str_nat (nat (- i)) else str_nat (nat i))"

fun py_str :: "pyval \<Rightarrow> string" where
  "py_str (PStr s) = s"
| "py_str (PInt i) = str_int i"
| "py_str (PBool b) = (if b then ''True'' else ''False'')"
| "py_str PNone = ''None''"

fun dict_get :: "'v dict \<Rightarrow> string \<Rightarrow> 'v option" where
  "dict_get [] k = None"
| "dict_get ((k', v) # items) k = (if k' = k then Some v else dict_get items k)"

fun dict_set :: "string \<Rightarrow> 'v \<Rightarrow> 'v dict \<Rightarrow> 'v dict" where
  "dict_set k v [] = [(k, v)]"
| "dict_set k v ((k', v') # items) =
     (if k' = k then (k, v) # items else (k', v') # dict_set k v items)"

text \<open>
  The comprehension \<^verbatim>\<open>{k: str(v) for k, v in docs[0].metadata.items()}\<close>;
  the keys of a dict are distinct, so it is a map over the items.
\<close>

definition str_items :: "pyval dict \<Rightarrow> string dict" where
  "str_items items = map (\<lambda>(k, v). (k, py_str v)) items"

text \<open>
  The body of the inner loop:
  \<^verbatim>\<open>if k in combined_metadata: combined_metadata[k] += f", {v}"\<close>,
  \<^verbatim>\<open>else: combined_metadata[k] = str(v)\<close>.
\<close>

definition comma_space :: string where
  "comma_space = '', ''"

definition merge_item :: "string dict \<Rightarrow> string \<times> pyval \<Rightarrow> string dict" where
  "merge_item combined_metadata kv =
     (case kv of (k, v) \<Rightarrow>
        (case dict_get combined_metadata k of
           Some old \<Rightarrow> dict_set k (old @ comma_space @ py_str v) combined_metadata
         | None \<Rightarrow> dict_set k (py_str v) combined_metadata))"

text \<open>The two nested loops over \<^verbatim>\<open>docs[1:]\<close> and the items of each document.\<close>

definition merge_rest :: "string dict \<Rightarrow> document list \<Rightarrow> string dict" where
  "merge_rest combined_metadata rest =
     foldl (\<lambda>combined d. foldl merge_item combined (metadata d)) combined_metadata rest"

text \<open>
  The merged metadata has string values; stored in a \<^verbatim>\<open>Document\<close> they are
  metadata values again.
\<close>

definition as_metadata :: "string dict \<Rightarrow> pyval dict" where
  "as_metadata combined_metadata = map (\<lambda>(k, s). (k, PStr s)) combined_metadata"

text \<open>\<^verbatim>\<open>_combine_metadata\<close>, lines 173 to 182; \<^verbatim>\<open>docs[0]\<close> raises on the empty list.\<close>

definition combine_metadata :: "document list \<Rightarrow> error + string dict" where
  "combine_metadata docs =
     (case docs of
        [] \<Rightarrow> Inl IndexError
      | d0 # rest \<Rightarrow> Inr (merge_rest (str_items (metadata d0)) rest))"


text \<open>
  A combine capability is a call out of the module (a chain run, a model call): a
  function of the documents and of the state of the outside world \<open>'w\<close>, returning a
  string and the new state. Every invocation is a step of that state, so the final state
  records which invocations were made, on which groups, in which order.
\<close>

type_synonym 'w capability = "document list \<Rightarrow> 'w \<Rightarrow> string \<times> 'w"

text \<open>
  \<^verbatim>\<open>collapse_docs\<close>, lines 251 to 280: the capability is invoked first, then the
  metadata are merged.
\<close>

definition collapse_docs ::
  "document list \<Rightarrow> 'w capability \<Rightarrow> 'w \<Rightarrow> (error + document) \<times> 'w" where
  "collapse_docs docs combine_document_func w =
     (case combine_document_func docs w of (result, w') \<Rightarrow>
        (case docs of
           [] \<Rightarrow> (Inl IndexError, w')
         | d0 # rest \<Rightarrow>
             (Inr \<lparr>page_content = result,
                   metadata = as_metadata (merge_rest (str_items (metadata d0)) rest)\<rparr>,
              w')))"

text \<open>
  \<^verbatim>\<open>acollapse_docs\<close>, lines 283 to 312: the same statements, the capability
  awaited.
\<close>

definition acollapse_docs ::
  "document list \<Rightarrow> 'w capability \<Rightarrow> 'w \<Rightarrow> (error + document) \<times> 'w" where
  "acollapse_docs docs combine_document_func w =
     (case combine_document_func docs w of (result, w') \<Rightarrow>
        (case docs of
           [] \<Rightarrow> (Inl IndexError, w')
         | d0 # rest \<Rightarrow>
             (Inr \<lparr>page_content = result,
                   metadata = as_metadata (merge_rest (str_items (metadata d0)) rest)\<rparr>,
              w')))"

text \<open>
  The words of the merge rule, for comparison with the code: a metadata is a dict when
  its keys are distinct; \<open>key_values k docs\<close> are the strings of the values that the
  documents of a group give to the key \<open>k\<close>, in the order of the documents;
  \<open>join_comma\<close> joins strings with \<^verbatim>\<open>", "\<close> between them.
\<close>

definition is_dict :: "'v dict \<Rightarrow> bool" where
  "is_dict items = distinct (map fst items)"

fun join_comma :: "string list \<Rightarrow> string" where
  "join_comma [] = []"
| "join_comma [x] = x"
| "join_comma (x # y # ys) = x @ comma_space @ join_comma (y # ys)"

definition key_values :: "string \<Rightarrow> document list \<Rightarrow> string list" where
  "key_values k docs =
     List.map_filter (\<lambda>d. map_option py_str (dict_get (metadata d) k)) docs"

definition joined :: "string list \<Rightarrow> string option" where
  "joined vs = (case vs of [] \<Rightarrow> None | _ \<Rightarrow> Some (join_comma vs))"

text \<open>
  Two auxiliary readings of a dict: the entry of a key as a list of at most one string,
  and the strings of the values that the items of one metadata give to a key.
\<close>

definition entry_values :: "string option \<Rightarrow> string list" where
  "entry_values e = (case e of None \<Rightarrow> [] | Some s \<Rightarrow> [s])"

definition item_values :: "string \<Rightarrow> pyval dict \<Rightarrow> string list" where
  "item_values k items = map (py_str \<circ> snd) (filter (\<lambda>kv. fst kv = k) items)"

section \<open>The reduction driver\<close>

text \<open>
  The chains a \<^verbatim>\<open>ReduceDocumentsChain\<close> holds are known by the methods it calls:
  \<^verbatim>\<open>prompt_length\<close>, \<^verbatim>\<open>run\<close> and \<^verbatim>\<open>arun\<close>, \<^verbatim>\<open>combine_docs\<close> and
  \<^verbatim>\<open>acombine_docs\<close>.
\<close>

record 'w base_chain =
  chain_prompt_length :: "document list \<Rightarrow> int option"
  chain_run :: "'w capability"
  chain_arun :: "'w capability"
  chain_combine_docs :: "document list \<Rightarrow> 'w \<Rightarrow> (string \<times> pyval dict) \<times> 'w"
  chain_acombine_docs :: "document list \<Rightarrow> 'w \<Rightarrow> (string \<times> pyval dict) \<times> 'w"

record 'w reduce_documents_chain =
  combine_documents_chain :: "'w base_chain"
  collapse_documents_chain :: "'w base_chain option"
  token_max :: int

text \<open>
  The constructor with the defaults of the fields, lines 383 to 393: an argument left
  out is \<open>None\<close> here.
\<close>

definition ReduceDocumentsChain ::
  "'w base_chain \<Rightarrow> 'w base_chain option \<Rightarrow> int option \<Rightarrow> 'w reduce_documents_chain" where
  "ReduceDocumentsChain combine collapse_opt tmax_opt =
     \<lparr>combine_documents_chain = combine,
      collapse_documents_chain = collapse_opt,
      token_max = (case tmax_opt of None \<Rightarrow> 3000 | Some t \<Rightarrow> t)\<rparr>"

definition collapse_chain :: "'w reduce_documents_chain \<Rightarrow> 'w base_chain" where
  "collapse_chain self =
     (case collapse_documents_chain self of
        Some c \<Rightarrow> c
      | None \<Rightarrow> combine_documents_chain self)"

text \<open>\<^verbatim>\<open>token_max or self.token_max\<close>: \<^verbatim>\<open>None\<close> and \<^verbatim>\<open>0\<close> are falsy.\<close>

definition py_or :: "int option \<Rightarrow> int \<Rightarrow> int" where
  "py_or x y = (case x of None \<Rightarrow> y | Some n \<Rightarrow> if n = 0 then y else n)"

text \<open>The \<^verbatim>\<open>for\<close> loop of lines 488 to 490, and its awaiting twin of lines 516 to 518.\<close>

fun collapse_each ::
  "'w capability \<Rightarrow> document list list \<Rightarrow> document list \<Rightarrow> 'w
     \<Rightarrow> (error + document list) \<times> 'w" where
  "collapse_each collapse_docs_func [] result_docs w = (Inr result_docs, w)"
| "collapse_each collapse_docs_func (docs # rest) result_docs w =
     (case collapse_docs docs collapse_docs_func w of
        (Inl e, w') \<Rightarrow> (Inl e, w')
      | (Inr new_doc, w') \<Rightarrow>
          collapse_each collapse_docs_func rest (result_docs @ [new_doc]) w')"

fun acollapse_each ::
  "'w capability \<Rightarrow> document list list \<Rightarrow> document list \<Rightarrow> 'w
     \<Rightarrow> (error + document list) \<times> 'w" where
  "acollapse_each collapse_docs_func [] result_docs w = (Inr result_docs, w)"
| "acollapse_each collapse_docs_func (docs # rest) result_docs w =
     (case acollapse_docs docs collapse_docs_func w of
        (Inl e, w') \<Rightarrow> (Inl e, w')
      | (Inr new_doc, w') \<Rightarrow>
          acollapse_each collapse_docs_func rest (result_docs @ [new_doc]) w')"


text \<open>
  A collapse capability lowers the cost of singleton rounds when every completed round
  over the budget whose groups are all singletons returns documents whose measured cost,
  if any, is below the cost before the round.
\<close>

definition lowers_singleton_cost ::
  "(document list \<Rightarrow> int option) \<Rightarrow> 'w capability \<Rightarrow> int \<Rightarrow> bool" where
  "lowers_singleton_cost length_func f tmax \<longleftrightarrow>
     (\<forall>docs n w groups new_docs w'.
        length_func docs = Some n \<longrightarrow> n > tmax \<longrightarrow>
        split_list_of_docs docs length_func tmax = Inr groups \<longrightarrow>
        (\<forall>g \<in> set groups. length g = 1) \<longrightarrow>
        collapse_each f groups [] w = (Inr new_docs, w') \<longrightarrow>
        (case length_func new_docs of None \<Rightarrow> True | Some n' \<Rightarrow> n' < n))"

text \<open>
  The \<^verbatim>\<open>while\<close> loop of \<^verbatim>\<open>_collapse\<close>, lines 483 to 491, on the loop state
  \<^verbatim>\<open>result_docs\<close>, \<^verbatim>\<open>num_tokens\<close>. The loop may run forever: the result is an
  option, \<open>None\<close> when it does not return.
\<close>

partial_function (option) collapse_while ::
  "(document list \<Rightarrow> int option) \<Rightarrow> 'w capability \<Rightarrow> int \<Rightarrow> document list \<Rightarrow> int option
     \<Rightarrow> 'w \<Rightarrow> ((error + document list) \<times> 'w) option" where
  "collapse_while length_func collapse_docs_func tmax result_docs num_tokens w =
     (case num_tokens of
        None \<Rightarrow> Some (Inr result_docs, w)
      | Some n \<Rightarrow>
          if n > tmax then
            (case split_list_of_docs result_docs length_func tmax of
               Inl e \<Rightarrow> Some (Inl e, w)
             | Inr new_result_doc_list \<Rightarrow>
                 (case collapse_each collapse_docs_func new_result_doc_list [] w of
                    (Inl e, w') \<Rightarrow> Some (Inl e, w')
                  | (Inr new_docs, w') \<Rightarrow>
                      collapse_while length_func collapse_docs_func tmax
                        new_docs (length_func new_docs) w'))
          else Some (Inr result_docs, w))"

partial_function (option) acollapse_while ::
  "(document list \<Rightarrow> int option) \<Rightarrow> 'w capability \<Rightarrow> int \<Rightarrow> document list \<Rightarrow> int option
     \<Rightarrow> 'w \<Rightarrow> ((error + document list) \<times> 'w) option" where
  "acollapse_while length_func collapse_docs_func tmax result_docs num_tokens w =
     (case num_tokens of
        None \<Rightarrow> Some (Inr result_docs, w)
      | Some n \<Rightarrow>
          if n > tmax then
            (case split_list_of_docs result_docs length_func tmax of
               Inl e \<Rightarrow> Some (Inl e, w)
             | Inr new_result_doc_list \<Rightarrow>
                 (case acollapse_each collapse_docs_func new_result_doc_list [] w of
                    (Inl e, w') \<Rightarrow> Some (Inl e, w')
                  | (Inr new_docs, w') \<Rightarrow>
                      acollapse_while length_func collapse_docs_func tmax
                        new_docs (length_func new_docs) w'))
          else Some (Inr result_docs, w))"

text \<open>
  \<^verbatim>\<open>_collapse\<close>, lines 466 to 492, and \<^verbatim>\<open>_acollapse\<close>, lines 494 to 520. What
  they return is the pair of the documents and the empty dict.
\<close>

definition collapse ::
  "'w reduce_documents_chain \<Rightarrow> document list \<Rightarrow> int option \<Rightarrow> 'w
     \<Rightarrow> ((error + document list \<times> pyval dict) \<times> 'w) option" where
  "collapse self docs tmax_arg w =
     (let result_docs = docs;
          length_func = chain_prompt_length (combine_documents_chain self);
          num_tokens = length_func result_docs;
          collapse_docs_func = chain_run (collapse_chain self);
          tmax = py_or tmax_arg (token_max self)
      in case collapse_while length_func collapse_docs_func tmax result_docs num_tokens w of
           None \<Rightarrow> None
         | Some (Inl e, w') \<Rightarrow> Some (Inl e, w')
         | Some (Inr final_docs, w') \<Rightarrow> Some (Inr (final_docs, []), w'))"

definition acollapse ::
  "'w reduce_documents_chain \<Rightarrow> document list \<Rightarrow> int option \<Rightarrow> 'w
     \<Rightarrow> ((error + document list \<times> pyval dict) \<times> 'w) option" where
  "acollapse self docs tmax_arg w =
     (let result_docs = docs;
          length_func = chain_prompt_length (combine_documents_chain self);
          num_tokens = length_func result_docs;
          collapse_docs_func = chain_arun (collapse_chain self);
          tmax = py_or tmax_arg (token_max self)
      in case acollapse_while length_func collapse_docs_func tmax result_docs num_tokens w of
           None \<Rightarrow> None
         | Some (Inl e, w') \<Rightarrow> Some (Inl e, w')
         | Some (Inr final_docs, w') \<Rightarrow> Some (Inr (final_docs, []), w'))"

text \<open>\<^verbatim>\<open>combine_docs\<close>, lines 408 to 435, and \<^verbatim>\<open>acombine_docs\<close>, lines 437 to 464.\<close>

definition combine_docs ::
  "'w reduce_documents_chain \<Rightarrow> document list \<Rightarrow> int option \<Rightarrow> 'w
     \<Rightarrow> ((error + string \<times> pyval dict) \<times> 'w) option" where
  "combine_docs self docs tmax_arg w =
     (case collapse self docs tmax_arg w of
        None \<Rightarrow> None
      | Some (Inl e, w') \<Rightarrow> Some (Inl e, w')
      | Some (Inr (result_docs, extra_return_dict), w') \<Rightarrow>
          (case chain_combine_docs (combine_documents_chain self) result_docs w' of
             (out, w'') \<Rightarrow> Some (Inr out, w'')))"

definition acombine_docs ::
  "'w reduce_documents_chain \<Rightarrow> document list \<Rightarrow> int option \<Rightarrow> 'w
     \<Rightarrow> ((error + string \<times> pyval dict) \<times> 'w) option" where
  "acombine_docs self docs tmax_arg w =
     (case acollapse self docs tmax_arg w of
        None \<Rightarrow> None
      | Some (Inl e, w') \<Rightarrow> Some (Inl e, w')
      | Some (Inr (result_docs, extra_return_dict), w') \<Rightarrow>
          (case chain_acombine_docs (combine_documents_chain self) result_docs w' of
             (out, w'') \<Rightarrow> Some (Inr out, w'')))"

section \<open>The composed pipeline\<close>













section \<open>Example inputs\<close>

text \<open>A length function used in the examples: the total number of characters.\<close>

definition total_chars :: "document list \<Rightarrow> int option" where
  "total_chars docs = Some (int (length (concat (map page_content docs))))"

definition doc :: "string \<Rightarrow> document" where
  "doc s = \<lparr>page_content = s, metadata = []\<rparr>"

text \<open>Two documents with metadata that share the key \<^verbatim>\<open>page\<close>.\<close>

definition meta_doc_a :: document where
  "meta_doc_a = \<lparr>page_content = ''alpha'',
                 metadata = [(''source'', PStr ''a.txt''), (''page'', PInt 1)]\<rparr>"

definition meta_doc_b :: document where
  "meta_doc_b = \<lparr>page_content = ''beta'',
                 metadata = [(''page'', PInt 12), (''draft'', PBool True)]\<rparr>"

text \<open>
  A chain whose capabilities keep a log of their invocations in the state: the collapse
  capability and the final combine capability return the concatenated contents.
\<close>

datatype call = Collapse "document list" | Final "document list"

definition logging_chain :: "call list base_chain" where
  "logging_chain =
     \<lparr>chain_prompt_length = total_chars,
      chain_run = (\<lambda>ds log. (concat (map page_content ds), log @ [Collapse ds])),
      chain_arun = (\<lambda>ds log. (concat (map page_content ds), log @ [Collapse ds])),
      chain_combine_docs = (\<lambda>ds log. ((concat (map page_content ds), []), log @ [Final ds])),
      chain_acombine_docs = (\<lambda>ds log. ((concat (map page_content ds), []), log @ [Final ds]))\<rparr>"

definition no_length_chain :: "call list base_chain" where
  "no_length_chain = logging_chain\<lparr>chain_prompt_length := (\<lambda>ds. None)\<rparr>"

text \<open>
  The capability that returns \<open>g\<close> of the group and appends the invocation to the log:
  its result does not depend on what was invoked before.
\<close>

definition logged :: "(document list \<Rightarrow> string) \<Rightarrow> call list capability" where
  "logged g = (\<lambda>ds log. (g ds, log @ [Collapse ds]))"


text \<open>The same chain with a collapse capability that returns the empty string.\<close>

definition blank_content :: "document list \<Rightarrow> string" where
  "blank_content ds = []"

definition blank_chain :: "call list base_chain" where
  "blank_chain =
     logging_chain\<lparr>chain_run := logged blank_content, chain_arun := logged blank_content\<rparr>"

text \<open>
  The loop state in which the logging chain, with a budget of 3 characters, is given
  the two documents \<^verbatim>\<open>aa\<close> and \<^verbatim>\<open>bb\<close>.
\<close>

definition spinning ::
  "(document list \<Rightarrow> int option) \<Rightarrow> call list capability \<Rightarrow> int \<Rightarrow> document list
     \<Rightarrow> int option \<Rightarrow> bool" where
  "spinning lf f tmax docs num \<longleftrightarrow>
     lf = total_chars \<and> f = chain_run logging_chain \<and> tmax = 3
     \<and> docs = [doc ''aa'', doc ''bb''] \<and> num = Some 4"



section \<open>Properties of the partitioner\<close>

lemma split_loop_concat:
  "split_loop length_func tmax docs acc sub = Inr groups \<Longrightarrow>
   concat groups = concat acc @ sub @ docs"
proof (induction docs arbitrary: acc sub)
  case Nil
  then show ?case by auto
next
  case (Cons d docs)
  show ?case
  proof (cases "length_func (sub @ [d])")
    case None
    with Cons.prems show ?thesis by simp
  next
    case (Some n)
    show ?thesis
    proof (cases "n > tmax")
      case False
      with Some Cons.prems
      have "split_loop length_func tmax docs acc (sub @ [d]) = Inr groups"
        by simp
      from Cons.IH [OF this] show ?thesis by simp
    next
      case True
      with Some Cons.prems
      have "split_loop length_func tmax docs (acc @ [sub]) [d] = Inr groups"
        by (simp add: Let_def split: if_splits)
      from Cons.IH [OF this] show ?thesis by simp
    qed
  qed
qed

text \<open>
  C1. Whenever the partitioner returns, the concatenation of its groups, in order, is
  the input list: the groups are contiguous, in order, disjoint, and lose or repeat
  no document.
\<close>

theorem split_list_of_docs_concat:
  "split_list_of_docs docs length_func tmax = Inr groups \<Longrightarrow> concat groups = docs"
  unfolding split_list_of_docs_def by (drule split_loop_concat) simp

theorem split_list_of_docs_concat_witness:
  "split_list_of_docs [doc ''aa'', doc ''bb'', doc ''c''] total_chars 3
     = Inr [[doc ''aa''], [doc ''bb'', doc ''c'']]
   \<and> concat [[doc ''aa''], [doc ''bb'', doc ''c'']] = [doc ''aa'', doc ''bb'', doc ''c'']"
proof -
  have run: "split_list_of_docs [doc ''aa'', doc ''bb'', doc ''c''] total_chars 3
     = Inr [[doc ''aa''], [doc ''bb'', doc ''c'']]"
    by (simp add: split_list_of_docs_def total_chars_def doc_def)
  from run split_list_of_docs_concat [OF run] show ?thesis by simp
qed


text \<open>
  C2. A document that follows a closed group starts the next group without being
  measured alone: with a budget of 5 characters, a document of 1 character followed
  by one of 10 gives two groups, the second of cost 10, and no error.
\<close>

theorem split_list_of_docs_over_budget_group:
  "split_list_of_docs [doc ''a'', doc ''bbbbbbbbbb''] total_chars 5
     = Inr [[doc ''a''], [doc ''bbbbbbbbbb'']]
   \<and> total_chars [doc ''bbbbbbbbbb''] = Some 10 \<and> (10::int) > 5"
  by (simp add: split_list_of_docs_def total_chars_def doc_def)

text \<open>
  What the partitioner does guarantee: a group of two or more documents was measured
  when its last document was appended, so it is within the budget. A singleton group
  that starts after a closed group is not measured.
\<close>

lemma split_loop_budget:
  "split_loop length_func tmax docs acc sub = Inr groups \<Longrightarrow>
   \<forall>g \<in> set acc. 2 \<le> length g \<longrightarrow> within_budget length_func tmax g \<Longrightarrow>
   2 \<le> length sub \<longrightarrow> within_budget length_func tmax sub \<Longrightarrow>
   \<forall>g \<in> set groups. 2 \<le> length g \<longrightarrow> within_budget length_func tmax g"
proof (induction docs arbitrary: acc sub)
  case Nil
  then show ?case by auto
next
  case (Cons d docs)
  show ?case
  proof (cases "length_func (sub @ [d])")
    case None
    with Cons.prems show ?thesis by simp
  next
    case (Some n)
    show ?thesis
    proof (cases "n > tmax")
      case False
      with Some Cons.prems(1)
      have r: "split_loop length_func tmax docs acc (sub @ [d]) = Inr groups"
        by simp
      from Some False have "within_budget length_func tmax (sub @ [d])"
        by (simp add: within_budget_def)
      with Cons.IH [OF r Cons.prems(2)] show ?thesis by simp
    next
      case True
      with Some Cons.prems(1)
      have r: "split_loop length_func tmax docs (acc @ [sub]) [d] = Inr groups"
        by (simp add: Let_def split: if_splits)
      from Cons.prems(2,3)
      have "\<forall>g \<in> set (acc @ [sub]). 2 \<le> length g \<longrightarrow> within_budget length_func tmax g"
        by simp
      from Cons.IH [OF r this] show ?thesis by simp
    qed
  qed
qed

lemma split_list_of_docs_budget:
  "split_list_of_docs docs length_func tmax = Inr groups \<Longrightarrow>
   \<forall>g \<in> set groups. 2 \<le> length g \<longrightarrow> within_budget length_func tmax g"
  unfolding split_list_of_docs_def by (drule split_loop_budget) simp_all

section \<open>Properties of the metadata merge\<close>

lemma dict_get_dict_set:
  "dict_get (dict_set k v d) k' = (if k' = k then Some v else dict_get d k')"
  by (induction d) auto

lemma dict_get_merge_item:
  "dict_get (merge_item acc (k, v)) k' =
     (if k' = k then
        (case dict_get acc k of
           Some old \<Rightarrow> Some (old @ comma_space @ py_str v)
         | None \<Rightarrow> Some (py_str v))
      else dict_get acc k')"
  by (simp add: merge_item_def dict_get_dict_set split: option.splits)

lemma join_comma_Cons:
  "join_comma ((a @ comma_space @ v) # vs) = a @ comma_space @ join_comma (v # vs)"
  by (cases vs) simp_all

lemma join_comma_append:
  "xs \<noteq> [] \<Longrightarrow> join_comma (join_comma xs # ys) = join_comma (xs @ ys)"
proof (induction xs rule: join_comma.induct)
  case 1
  then show ?case by simp
next
  case (2 x)
  then show ?case by simp
next
  case (3 x y ys')
  then show ?case by (simp add: join_comma_Cons)
qed

lemma joined_absorb:
  "joined (entry_values (joined xs) @ ys) = joined (xs @ ys)"
proof (cases xs)
  case Nil
  then show ?thesis by (simp add: joined_def entry_values_def)
next
  case (Cons x xs')
  then have "xs \<noteq> []" by simp
  from join_comma_append [OF this, of ys] Cons show ?thesis
    by (simp add: joined_def entry_values_def)
qed

lemma dict_get_merge_items:
  "dict_get (foldl merge_item acc items) k =
     joined (entry_values (dict_get acc k) @ item_values k items)"
proof (induction items arbitrary: acc)
  case Nil
  show ?case
    by (cases "dict_get acc k") (simp_all add: joined_def entry_values_def item_values_def)
next
  case (Cons kv items)
  obtain k1 v1 where kv: "kv = (k1, v1)" by (cases kv)
  show ?case
  proof (cases "k1 = k")
    case False
    then show ?thesis
      using Cons.IH [of "merge_item acc (k1, v1)"]
      by (simp add: kv dict_get_merge_item item_values_def)
  next
    case True
    show ?thesis
      using Cons.IH [of "merge_item acc (k1, v1)"] True
      by (cases "dict_get acc k")
         (simp_all add: kv dict_get_merge_item item_values_def entry_values_def
            joined_def join_comma_Cons)
  qed
qed

lemma dict_get_merge_rest:
  "dict_get (merge_rest acc rest) k =
     joined (entry_values (dict_get acc k) @ concat (map (\<lambda>d. item_values k (metadata d)) rest))"
proof (induction rest arbitrary: acc)
  case Nil
  show ?case
    by (cases "dict_get acc k") (simp_all add: merge_rest_def joined_def entry_values_def)
next
  case (Cons d rest)
  have "dict_get (merge_rest acc (d # rest)) k
      = dict_get (merge_rest (foldl merge_item acc (metadata d)) rest) k"
    by (simp add: merge_rest_def)
  also have "\<dots> = joined (entry_values (dict_get (foldl merge_item acc (metadata d)) k)
                     @ concat (map (\<lambda>d. item_values k (metadata d)) rest))"
    by (rule Cons.IH)
  also have "\<dots> = joined ((entry_values (dict_get acc k) @ item_values k (metadata d))
                     @ concat (map (\<lambda>d. item_values k (metadata d)) rest))"
    by (simp only: dict_get_merge_items joined_absorb)
  finally show ?case by simp
qed

lemma item_values_absent:
  "k \<notin> fst ` set items \<Longrightarrow> item_values k items = []"
  by (induction items) (auto simp: item_values_def)

lemma dict_get_absent:
  "k \<notin> fst ` set items \<Longrightarrow> dict_get items k = None"
  by (induction items) auto

lemma item_values_dict:
  "is_dict items \<Longrightarrow>
   item_values k items = entry_values (map_option py_str (dict_get items k))"
proof (induction items)
  case Nil
  show ?case by (simp add: item_values_def entry_values_def)
next
  case (Cons kv items)
  obtain k1 v1 where kv: "kv = (k1, v1)" by (cases kv)
  from Cons.prems have absent: "k1 \<notin> fst ` set items" and rest: "is_dict items"
    by (auto simp: is_dict_def kv)
  show ?case
  proof (cases "k1 = k")
    case True
    with absent have "item_values k items = []" by (simp add: item_values_absent)
    with True show ?thesis by (simp add: kv item_values_def entry_values_def)
  next
    case False
    with Cons.IH [OF rest] show ?thesis by (simp add: kv item_values_def)
  qed
qed

lemma dict_get_str_items:
  "dict_get (str_items items) k = map_option py_str (dict_get items k)"
  by (induction items) (auto simp: str_items_def)

lemma key_values_concat:
  "\<forall>d \<in> set docs. is_dict (metadata d) \<Longrightarrow>
   concat (map (\<lambda>d. item_values k (metadata d)) docs) = key_values k docs"
  by (induction docs)
     (auto simp: key_values_def List.map_filter_simps item_values_dict entry_values_def
           split: option.splits)

lemma merged_lookup:
  assumes "\<forall>d \<in> set (d0 # rest). is_dict (metadata d)"
  shows "dict_get (merge_rest (str_items (metadata d0)) rest) k = joined (key_values k (d0 # rest))"
proof -
  from assms have d0: "is_dict (metadata d0)" and r: "\<forall>d \<in> set rest. is_dict (metadata d)"
    by simp_all
  have "entry_values (dict_get (str_items (metadata d0)) k) = item_values k (metadata d0)"
    by (simp add: dict_get_str_items item_values_dict [OF d0])
  then have "dict_get (merge_rest (str_items (metadata d0)) rest) k
      = joined (concat (map (\<lambda>d. item_values k (metadata d)) (d0 # rest)))"
    by (simp add: dict_get_merge_rest)
  also have "\<dots> = joined (key_values k (d0 # rest))"
    using key_values_concat [OF assms] by simp
  finally show ?thesis .
qed

lemma keys_dict_set:
  "map fst (dict_set k v d) = (if k \<in> fst ` set d then map fst d else map fst d @ [k])"
  by (induction d) force+

lemma dict_get_None_key: "dict_get d k = None \<Longrightarrow> k \<notin> fst ` set d"
  by (induction d) (force split: if_splits)+

lemma dict_get_Some_key: "dict_get d k = Some v \<Longrightarrow> k \<in> fst ` set d"
  by (induction d) (auto split: if_splits)

lemma is_dict_merge_item: "is_dict acc \<Longrightarrow> is_dict (merge_item acc kv)"
proof (cases kv)
  case (Pair k v)
  assume d: "is_dict acc"
  show ?thesis
  proof (cases "dict_get acc k")
    case None
    then have "k \<notin> fst ` set acc" by (rule dict_get_None_key)
    with d None show ?thesis by (simp add: Pair merge_item_def is_dict_def keys_dict_set)
  next
    case (Some old)
    then have "k \<in> fst ` set acc" by (rule dict_get_Some_key)
    with d Some show ?thesis by (simp add: Pair merge_item_def is_dict_def keys_dict_set)
  qed
qed

lemma is_dict_merge_items: "is_dict acc \<Longrightarrow> is_dict (foldl merge_item acc items)"
  by (induction items arbitrary: acc) (simp_all add: is_dict_merge_item)

lemma is_dict_merge_rest: "is_dict acc \<Longrightarrow> is_dict (merge_rest acc rest)"
  unfolding merge_rest_def
  by (induction rest arbitrary: acc) (simp_all add: is_dict_merge_items)

lemma is_dict_str_items: "is_dict items \<Longrightarrow> is_dict (str_items items)"
  by (simp add: is_dict_def str_items_def comp_def case_prod_unfold)

text \<open>
  C5. For a non-empty group whose metadata are dicts, \<^verbatim>\<open>_combine_metadata\<close> returns
  a dict \<open>md\<close>, and \<^verbatim>\<open>collapse_docs\<close> and \<^verbatim>\<open>acollapse_docs\<close> return the
  document with that metadata. For a group of one document \<open>md\<close> is its metadata with
  every value stringified. In general \<open>md\<close> is a dict, and its entry for a key is the
  strings of the values the documents give to that key, in the order of the documents,
  joined by \<^verbatim>\<open>", "\<close>; it has no entry exactly for the keys no document has. So no
  key is dropped and no value is overwritten.
\<close>

theorem collapse_docs_metadata_merge:
  assumes "\<forall>d \<in> set (d0 # rest). is_dict (metadata d)"
  shows "\<exists>md. combine_metadata (d0 # rest) = Inr md
          \<and> collapse_docs (d0 # rest) f w
              = (Inr \<lparr>page_content = fst (f (d0 # rest) w), metadata = as_metadata md\<rparr>,
                 snd (f (d0 # rest) w))
          \<and> acollapse_docs (d0 # rest) f w = collapse_docs (d0 # rest) f w
          \<and> (rest = [] \<longrightarrow> md = str_items (metadata d0))
          \<and> is_dict md
          \<and> (\<forall>k. dict_get md k = joined (key_values k (d0 # rest)))"
proof -
  let ?md = "merge_rest (str_items (metadata d0)) rest"
  from assms have d0: "is_dict (metadata d0)" by simp
  have 1: "combine_metadata (d0 # rest) = Inr ?md"
    by (simp add: combine_metadata_def)
  have 2: "collapse_docs (d0 # rest) f w
              = (Inr \<lparr>page_content = fst (f (d0 # rest) w), metadata = as_metadata ?md\<rparr>,
                 snd (f (d0 # rest) w))"
    by (simp add: collapse_docs_def case_prod_unfold)
  have 3: "acollapse_docs (d0 # rest) f w = collapse_docs (d0 # rest) f w"
    by (simp add: collapse_docs_def acollapse_docs_def)
  have 4: "rest = [] \<longrightarrow> ?md = str_items (metadata d0)"
    by (simp add: merge_rest_def)
  have 5: "is_dict ?md"
    by (rule is_dict_merge_rest) (rule is_dict_str_items [OF d0])
  have 6: "\<forall>k. dict_get ?md k = joined (key_values k (d0 # rest))"
    using merged_lookup [OF assms] by blast
  from 1 2 3 4 5 6 show ?thesis by blast
qed

theorem collapse_docs_metadata_merge_witness:
  "is_dict (metadata meta_doc_a) \<and> is_dict (metadata meta_doc_b)
   \<and> combine_metadata [meta_doc_a, meta_doc_b]
       = Inr [(''source'', ''a.txt''), (''page'', ''1, 12''), (''draft'', ''True'')]
   \<and> dict_get [(''source'', ''a.txt''), (''page'', ''1, 12''), (''draft'', ''True'')] ''page''
       = joined (key_values ''page'' [meta_doc_a, meta_doc_b])
   \<and> joined (key_values ''page'' [meta_doc_a, meta_doc_b]) = Some ''1, 12''"
proof -
  have h: "\<forall>d \<in> set (meta_doc_a # [meta_doc_b]). is_dict (metadata d)"
    by (simp add: is_dict_def meta_doc_a_def meta_doc_b_def)
  have run: "combine_metadata [meta_doc_a, meta_doc_b]
       = Inr [(''source'', ''a.txt''), (''page'', ''1, 12''), (''draft'', ''True'')]"
    by (simp add: combine_metadata_def merge_rest_def str_items_def merge_item_def
          comma_space_def meta_doc_a_def meta_doc_b_def str_int_def str_nat.simps)
  from collapse_docs_metadata_merge [OF h, of "\<lambda>ds w. (''summary'', w)" "()"]
  obtain md where md: "combine_metadata [meta_doc_a, meta_doc_b] = Inr md"
    and look: "\<forall>k. dict_get md k = joined (key_values k [meta_doc_a, meta_doc_b])"
    by blast
  from md run have eq: "md = [(''source'', ''a.txt''), (''page'', ''1, 12''), (''draft'', ''True'')]"
    by simp
  from look [rule_format, of "''page''"] eq have
    "dict_get [(''source'', ''a.txt''), (''page'', ''1, 12''), (''draft'', ''True'')] ''page''
       = joined (key_values ''page'' [meta_doc_a, meta_doc_b])"
    by simp
  moreover from this have "joined (key_values ''page'' [meta_doc_a, meta_doc_b]) = Some ''1, 12''"
    by simp
  ultimately show ?thesis using h run by simp
qed

section \<open>Properties of the reduction driver\<close>

subsection \<open>Documents within the budget, or without a length\<close>

lemma collapse_while_stop:
  "num_tokens = None \<or> (\<exists>n. num_tokens = Some n \<and> n \<le> tmax) \<Longrightarrow>
   collapse_while length_func f tmax docs num_tokens w = Some (Inr docs, w)"
  by (subst collapse_while.simps) auto

lemma acollapse_while_stop:
  "num_tokens = None \<or> (\<exists>n. num_tokens = Some n \<and> n \<le> tmax) \<Longrightarrow>
   acollapse_while length_func f tmax docs num_tokens w = Some (Inr docs, w)"
  by (subst acollapse_while.simps) auto

text \<open>
  C10. When \<^verbatim>\<open>prompt_length\<close> returns \<^verbatim>\<open>None\<close> for the input documents,
  \<^verbatim>\<open>_collapse\<close> and \<^verbatim>\<open>_acollapse\<close> return the documents unchanged and leave
  the state unchanged (no capability is invoked), so that \<^verbatim>\<open>combine_docs\<close> and
  \<^verbatim>\<open>acombine_docs\<close> are one invocation of the final combine capability on the
  input documents.
\<close>

theorem collapse_none_length:
  assumes "chain_prompt_length (combine_documents_chain self) docs = None"
  shows "collapse self docs tmax_arg w = Some (Inr (docs, []), w)
       \<and> acollapse self docs tmax_arg w = Some (Inr (docs, []), w)
       \<and> combine_docs self docs tmax_arg w
           = Some (Inr (fst (chain_combine_docs (combine_documents_chain self) docs w)),
                   snd (chain_combine_docs (combine_documents_chain self) docs w))
       \<and> acombine_docs self docs tmax_arg w
           = Some (Inr (fst (chain_acombine_docs (combine_documents_chain self) docs w)),
                   snd (chain_acombine_docs (combine_documents_chain self) docs w))"
proof -
  have c: "collapse self docs tmax_arg w = Some (Inr (docs, []), w)"
    using assms by (simp add: collapse_def collapse_while_stop)
  have a: "acollapse self docs tmax_arg w = Some (Inr (docs, []), w)"
    using assms by (simp add: acollapse_def acollapse_while_stop)
  from c a show ?thesis
    by (simp add: combine_docs_def acombine_docs_def case_prod_unfold)
qed

theorem collapse_none_length_witness:
  "chain_prompt_length (combine_documents_chain (ReduceDocumentsChain no_length_chain None (Some 1)))
       [doc ''aaaa'', doc ''bbbb''] = None
   \<and> collapse (ReduceDocumentsChain no_length_chain None (Some 1)) [doc ''aaaa'', doc ''bbbb'']
        None [] = Some (Inr ([doc ''aaaa'', doc ''bbbb''], []), [])
   \<and> combine_docs (ReduceDocumentsChain no_length_chain None (Some 1))
        [doc ''aaaa'', doc ''bbbb''] None []
        = Some (Inr (''aaaabbbb'', []), [Final [doc ''aaaa'', doc ''bbbb'']])"
proof -
  have h: "chain_prompt_length
             (combine_documents_chain (ReduceDocumentsChain no_length_chain None (Some 1)))
             [doc ''aaaa'', doc ''bbbb''] = None"
    by (simp add: ReduceDocumentsChain_def no_length_chain_def)
  from collapse_none_length [OF h, of None "[]"] h show ?thesis
    by (simp add: ReduceDocumentsChain_def no_length_chain_def logging_chain_def doc_def)
qed

text \<open>
  C7. When the cost of the input documents is at most the active budget, the loop body
  does not run: \<^verbatim>\<open>_collapse\<close> returns the documents unchanged and leaves the state
  unchanged (no collapse capability is invoked), and \<^verbatim>\<open>combine_docs\<close> is exactly
  one invocation of the final combine capability, on the unchanged documents.
\<close>

theorem collapse_within_budget:
  assumes "chain_prompt_length (combine_documents_chain self) docs = Some n"
      and "n \<le> py_or tmax_arg (token_max self)"
  shows "collapse self docs tmax_arg w = Some (Inr (docs, []), w)
       \<and> acollapse self docs tmax_arg w = Some (Inr (docs, []), w)
       \<and> combine_docs self docs tmax_arg w
           = Some (Inr (fst (chain_combine_docs (combine_documents_chain self) docs w)),
                   snd (chain_combine_docs (combine_documents_chain self) docs w))
       \<and> acombine_docs self docs tmax_arg w
           = Some (Inr (fst (chain_acombine_docs (combine_documents_chain self) docs w)),
                   snd (chain_acombine_docs (combine_documents_chain self) docs w))"
proof -
  have c: "collapse self docs tmax_arg w = Some (Inr (docs, []), w)"
    using assms by (simp add: collapse_def collapse_while_stop)
  have a: "acollapse self docs tmax_arg w = Some (Inr (docs, []), w)"
    using assms by (simp add: acollapse_def acollapse_while_stop)
  from c a show ?thesis
    by (simp add: combine_docs_def acombine_docs_def case_prod_unfold)
qed

theorem collapse_within_budget_witness:
  "chain_prompt_length (combine_documents_chain (ReduceDocumentsChain logging_chain None (Some 10)))
       [doc ''aa'', doc ''bbb'', doc ''c''] = Some 6
   \<and> (6::int) \<le> py_or None (token_max (ReduceDocumentsChain logging_chain None (Some 10)))
   \<and> collapse (ReduceDocumentsChain logging_chain None (Some 10))
        [doc ''aa'', doc ''bbb'', doc ''c''] None []
        = Some (Inr ([doc ''aa'', doc ''bbb'', doc ''c''], []), [])
   \<and> combine_docs (ReduceDocumentsChain logging_chain None (Some 10))
        [doc ''aa'', doc ''bbb'', doc ''c''] None []
        = Some (Inr (''aabbbc'', []), [Final [doc ''aa'', doc ''bbb'', doc ''c'']])"
proof -
  have h1: "chain_prompt_length
              (combine_documents_chain (ReduceDocumentsChain logging_chain None (Some 10)))
              [doc ''aa'', doc ''bbb'', doc ''c''] = Some 6"
    by (simp add: ReduceDocumentsChain_def logging_chain_def total_chars_def doc_def)
  have h2: "(6::int) \<le> py_or None (token_max (ReduceDocumentsChain logging_chain None (Some 10)))"
    by (simp add: ReduceDocumentsChain_def py_or_def)
  from collapse_within_budget [OF h1 h2, of "[]"] h1 h2 show ?thesis
    by (simp add: ReduceDocumentsChain_def logging_chain_def doc_def)
qed

text \<open>
  C9. With the argument \<^verbatim>\<open>token_max\<close> equal to 0 or to \<^verbatim>\<open>None\<close>, the budget of
  the loop is the field \<^verbatim>\<open>token_max\<close> of the chain, which is 3000 when the chain is
  built without it: the calls with 0 and with \<^verbatim>\<open>None\<close> are the same, and they run
  the loop with the budget of the chain.
\<close>

theorem collapse_falsy_token_max:
  "py_or (Some 0) (token_max self) = token_max self
   \<and> py_or None (token_max self) = token_max self
   \<and> token_max (ReduceDocumentsChain combine collapse_opt None) = 3000
   \<and> collapse self docs (Some 0) w = collapse self docs None w
   \<and> acollapse self docs (Some 0) w = acollapse self docs None w
   \<and> combine_docs self docs (Some 0) w = combine_docs self docs None w
   \<and> acombine_docs self docs (Some 0) w = acombine_docs self docs None w
   \<and> collapse self docs None w
       = (case collapse_while (chain_prompt_length (combine_documents_chain self))
                (chain_run (collapse_chain self)) (token_max self) docs
                (chain_prompt_length (combine_documents_chain self) docs) w of
            None \<Rightarrow> None
          | Some (Inl e, w') \<Rightarrow> Some (Inl e, w')
          | Some (Inr final_docs, w') \<Rightarrow> Some (Inr (final_docs, []), w'))
   \<and> acollapse self docs None w
       = (case acollapse_while (chain_prompt_length (combine_documents_chain self))
                (chain_arun (collapse_chain self)) (token_max self) docs
                (chain_prompt_length (combine_documents_chain self) docs) w of
            None \<Rightarrow> None
          | Some (Inl e, w') \<Rightarrow> Some (Inl e, w')
          | Some (Inr final_docs, w') \<Rightarrow> Some (Inr (final_docs, []), w'))"
  by (simp add: py_or_def ReduceDocumentsChain_def collapse_def acollapse_def
        combine_docs_def acombine_docs_def Let_def)

subsection \<open>A first document over the budget\<close>

lemma split_first_too_large:
  assumes "length_func [d] = Some m" and "m > tmax"
  shows "split_list_of_docs (d # rest) length_func tmax = Inl (ValueError too_long_message)"
  using assms by (simp add: split_list_of_docs_def)

lemma collapse_while_raise:
  assumes "n > tmax" and "split_list_of_docs docs length_func tmax = Inl e"
  shows "collapse_while length_func f tmax docs (Some n) w = Some (Inl e, w)"
  using assms by (subst collapse_while.simps) simp

lemma acollapse_while_raise:
  assumes "n > tmax" and "split_list_of_docs docs length_func tmax = Inl e"
  shows "acollapse_while length_func f tmax docs (Some n) w = Some (Inl e, w)"
  using assms by (subst acollapse_while.simps) simp

text \<open>
  C4, as the code has it. When the first document of the list alone costs more than the
  active budget, and the whole list does too, \<^verbatim>\<open>_collapse\<close> and
  \<^verbatim>\<open>_acollapse\<close> raise the \<^verbatim>\<open>ValueError\<close> of the partitioner with its
  fixed message and leave the state unchanged: no combine capability has been invoked.
  \<^verbatim>\<open>combine_docs\<close> and \<^verbatim>\<open>acombine_docs\<close> pass the error on to the caller
  without invoking the final combine capability.
\<close>

theorem collapse_first_document_too_large:
  assumes "chain_prompt_length (combine_documents_chain self) (d # rest) = Some n"
      and "n > py_or tmax_arg (token_max self)"
      and "chain_prompt_length (combine_documents_chain self) [d] = Some m"
      and "m > py_or tmax_arg (token_max self)"
  shows "collapse self (d # rest) tmax_arg w = Some (Inl (ValueError too_long_message), w)
       \<and> acollapse self (d # rest) tmax_arg w = Some (Inl (ValueError too_long_message), w)
       \<and> combine_docs self (d # rest) tmax_arg w = Some (Inl (ValueError too_long_message), w)
       \<and> acombine_docs self (d # rest) tmax_arg w = Some (Inl (ValueError too_long_message), w)"
proof -
  let ?lf = "chain_prompt_length (combine_documents_chain self)"
  let ?tmax = "py_or tmax_arg (token_max self)"
  have s: "split_list_of_docs (d # rest) ?lf ?tmax = Inl (ValueError too_long_message)"
    using assms(3,4) by (rule split_first_too_large)
  have c: "collapse self (d # rest) tmax_arg w = Some (Inl (ValueError too_long_message), w)"
    by (simp add: collapse_def assms(1) collapse_while_raise [OF assms(2) s])
  have a: "acollapse self (d # rest) tmax_arg w = Some (Inl (ValueError too_long_message), w)"
    by (simp add: acollapse_def assms(1) acollapse_while_raise [OF assms(2) s])
  from c a show ?thesis by (simp add: combine_docs_def acombine_docs_def)
qed

theorem collapse_first_document_too_large_witness:
  "chain_prompt_length (combine_documents_chain (ReduceDocumentsChain logging_chain None None))
      [doc ''aaaaaa'', doc ''b''] = Some 7
   \<and> (7::int) > py_or (Some 5) (token_max (ReduceDocumentsChain logging_chain None None))
   \<and> chain_prompt_length (combine_documents_chain (ReduceDocumentsChain logging_chain None None))
      [doc ''aaaaaa''] = Some 6
   \<and> (6::int) > py_or (Some 5) (token_max (ReduceDocumentsChain logging_chain None None))
   \<and> combine_docs (ReduceDocumentsChain logging_chain None None) [doc ''aaaaaa'', doc ''b'']
        (Some 5) [] = Some (Inl (ValueError too_long_message), [])"
proof -
  let ?c = "ReduceDocumentsChain logging_chain None None :: call list reduce_documents_chain"
  have h1: "chain_prompt_length (combine_documents_chain ?c) (doc ''aaaaaa'' # [doc ''b'']) = Some 7"
    by (simp add: ReduceDocumentsChain_def logging_chain_def total_chars_def doc_def)
  have h2: "(7::int) > py_or (Some 5) (token_max ?c)"
    by (simp add: py_or_def)
  have h3: "chain_prompt_length (combine_documents_chain ?c) [doc ''aaaaaa''] = Some 6"
    by (simp add: ReduceDocumentsChain_def logging_chain_def total_chars_def doc_def)
  have h4: "(6::int) > py_or (Some 5) (token_max ?c)"
    by (simp add: py_or_def)
  from collapse_first_document_too_large [OF h1 h2 h3 h4, of "[]"] h1 h2 h3 h4
  show ?thesis by simp
qed

text \<open>
  Against C4 as stated. The error is the same value whichever document is too large: it
  holds the fixed message and neither the document nor an index. And a document that is
  too large but not the first of the list raises nothing: with a budget of 5, the
  document of 10 characters after a document of 1 character is collapsed alone.
\<close>

theorem collapse_too_large_counterexample:
  "collapse (ReduceDocumentsChain blank_chain None None) [doc ''aaaaaa''] (Some 5) []
     = Some (Inl (ValueError
         ''A single document was longer than the context length, we cannot handle this.''), [])
   \<and> collapse (ReduceDocumentsChain blank_chain None None) [doc ''bbbbbbb''] (Some 5) []
     = Some (Inl (ValueError
         ''A single document was longer than the context length, we cannot handle this.''), [])
   \<and> doc ''aaaaaa'' \<noteq> doc ''bbbbbbb''
   \<and> total_chars [doc ''bbbbbbbbbb''] = Some 10 \<and> (10::int) > 5
   \<and> collapse (ReduceDocumentsChain blank_chain None None)
        [doc ''a'', doc ''bbbbbbbbbb''] (Some 5) []
     = Some (Inr ([doc [], doc []], []),
             [Collapse [doc ''a''], Collapse [doc ''bbbbbbbbbb'']])"
  by (simp add: collapse_def ReduceDocumentsChain_def blank_chain_def logged_def blank_content_def logging_chain_def
        collapse_chain_def py_or_def total_chars_def doc_def collapse_while.simps
        split_list_of_docs_def collapse_docs_def merge_rest_def str_items_def as_metadata_def
        too_long_message_def)

subsection \<open>A loop that does not return\<close>

lemma identity_round:
  "collapse_each (chain_run logging_chain) [[doc ''aa''], [doc ''bb'']] [] w
     = (Inr [doc ''aa'', doc ''bb''], w @ [Collapse [doc ''aa''], Collapse [doc ''bb'']])"
  by (simp add: logging_chain_def collapse_docs_def doc_def merge_rest_def str_items_def
        as_metadata_def)

lemma identity_split:
  "split_list_of_docs [doc ''aa'', doc ''bb''] total_chars 3 = Inr [[doc ''aa''], [doc ''bb'']]"
  by (simp add: split_list_of_docs_def total_chars_def doc_def)

lemma collapse_while_spins:
  assumes "collapse_while lf f tmax docs num w = Some y"
  shows "\<not> spinning lf f tmax docs num"
proof (rule collapse_while.raw_induct
         [where P = "\<lambda>lf f tmax docs num w y. \<not> spinning lf f tmax docs num", OF _ assms])
  fix cw :: "(document list \<Rightarrow> int option) \<Rightarrow> call list capability \<Rightarrow> int \<Rightarrow> document list
               \<Rightarrow> int option \<Rightarrow> call list \<Rightarrow> ((error + document list) \<times> call list) option"
  fix lf f tmax docs num w y
  assume IH: "\<And>lf f tmax docs num w y.
                cw lf f tmax docs num w = Some y \<Longrightarrow> \<not> spinning lf f tmax docs num"
  assume step: "(case num of
        None \<Rightarrow> Some (Inr docs, w)
      | Some n \<Rightarrow>
          if n > tmax then
            (case split_list_of_docs docs lf tmax of
               Inl e \<Rightarrow> Some (Inl e, w)
             | Inr new_result_doc_list \<Rightarrow>
                 (case collapse_each f new_result_doc_list [] w of
                    (Inl e, w') \<Rightarrow> Some (Inl e, w')
                  | (Inr new_docs, w') \<Rightarrow> cw lf f tmax new_docs (lf new_docs) w'))
          else Some (Inr docs, w)) = Some y"
  show "\<not> spinning lf f tmax docs num"
  proof
    assume a: "spinning lf f tmax docs num"
    have len: "total_chars [doc ''aa'', doc ''bb''] = Some 4"
      by (simp add: total_chars_def doc_def)
    from step a
    have "cw lf f tmax docs num (w @ [Collapse [doc ''aa''], Collapse [doc ''bb'']]) = Some y"
      by (simp add: spinning_def identity_split identity_round len del: collapse_each.simps)
    from IH [OF this] a show False by simp
  qed
qed

text \<open>
  Against C3 as stated. Two documents of 2 characters each and a budget of 3: no document
  is over the budget, the partition is two singleton groups, the capability of the
  logging chain returns each content as it is, and the loop never returns.
\<close>

theorem collapse_never_returns:
  "total_chars [doc ''aa''] = Some 2 \<and> total_chars [doc ''bb''] = Some 2 \<and> (2::int) \<le> 3
   \<and> collapse (ReduceDocumentsChain logging_chain None None) [doc ''aa'', doc ''bb'']
        (Some 3) [] = None"
proof -
  have "collapse_while total_chars (chain_run logging_chain) 3 [doc ''aa'', doc ''bb'']
          (Some 4) ([] :: call list) = None"
  proof (cases "collapse_while total_chars (chain_run logging_chain) 3
                  [doc ''aa'', doc ''bb''] (Some 4) ([] :: call list)")
    case None
    then show ?thesis .
  next
    case (Some y)
    from collapse_while_spins [OF this] show ?thesis by (simp add: spinning_def)
  qed
  then show ?thesis
    by (simp add: collapse_def ReduceDocumentsChain_def collapse_chain_def py_or_def
          logging_chain_def total_chars_def doc_def)
qed

subsection \<open>Progress of a round, and termination\<close>

lemma split_loop_nonempty:
  "split_loop length_func tmax docs acc sub = Inr groups \<Longrightarrow>
   \<forall>g \<in> set acc. g \<noteq> [] \<Longrightarrow> sub \<noteq> [] \<or> docs \<noteq> [] \<Longrightarrow>
   \<forall>g \<in> set groups. g \<noteq> []"
proof (induction docs arbitrary: acc sub)
  case Nil
  then show ?case by auto
next
  case (Cons d docs)
  show ?case
  proof (cases "length_func (sub @ [d])")
    case None
    with Cons.prems show ?thesis by simp
  next
    case (Some n)
    show ?thesis
    proof (cases "n > tmax")
      case False
      with Some Cons.prems
      have "split_loop length_func tmax docs acc (sub @ [d]) = Inr groups"
        by simp
      from Cons.IH [OF this] Cons.prems(2) show ?thesis by simp
    next
      case True
      with Some Cons.prems(1)
      have r: "split_loop length_func tmax docs (acc @ [sub]) [d] = Inr groups"
        and ne: "sub \<noteq> []"
        by (simp_all add: Let_def split: if_splits)
      from Cons.IH [OF r] Cons.prems(2) ne show ?thesis by simp
    qed
  qed
qed

lemma split_list_of_docs_nonempty:
  "split_list_of_docs docs length_func tmax = Inr groups \<Longrightarrow> docs \<noteq> [] \<Longrightarrow>
   \<forall>g \<in> set groups. g \<noteq> []"
  unfolding split_list_of_docs_def by (drule split_loop_nonempty) simp_all

lemma length_concat_groups:
  "\<forall>g \<in> set groups. g \<noteq> [] \<Longrightarrow> length groups \<le> length (concat groups)"
proof (induction groups)
  case Nil
  show ?case by simp
next
  case (Cons g groups)
  then have "g \<noteq> []" and "length groups \<le> length (concat groups)" by simp_all
  moreover from \<open>g \<noteq> []\<close> have "1 \<le> length g" by (cases g) simp_all
  ultimately show ?case by simp
qed

lemma length_concat_groups_strict:
  "\<forall>g \<in> set groups. g \<noteq> [] \<Longrightarrow> \<exists>g \<in> set groups. length g \<noteq> 1 \<Longrightarrow>
   length groups < length (concat groups)"
proof (induction groups)
  case Nil
  then show ?case by simp
next
  case (Cons g groups)
  from Cons.prems(1) have g: "g \<noteq> []" and rest: "\<forall>g \<in> set groups. g \<noteq> []" by simp_all
  from g have g1: "1 \<le> length g" by (cases g) simp_all
  show ?case
  proof (cases "length g = 1")
    case True
    with Cons.prems(2) have "\<exists>g \<in> set groups. length g \<noteq> 1" by simp
    from Cons.IH [OF rest this] True show ?thesis by simp
  next
    case False
    with g1 have "2 \<le> length g" by simp
    with length_concat_groups [OF rest] show ?thesis by simp
  qed
qed

lemma collapse_each_length:
  "collapse_each f groups acc w = (Inr new_docs, w') \<Longrightarrow>
   length new_docs = length acc + length groups"
proof (induction groups arbitrary: acc w)
  case Nil
  then show ?case by simp
next
  case (Cons g groups)
  obtain r w1 where c: "collapse_docs g f w = (r, w1)" by (cases "collapse_docs g f w")
  show ?case
  proof (cases r)
    case (Inl e)
    with c Cons.prems show ?thesis by simp
  next
    case (Inr new_doc)
    with c Cons.prems
    have "collapse_each f groups (acc @ [new_doc]) w1 = (Inr new_docs, w')" by simp
    from Cons.IH [OF this] show ?thesis by simp
  qed
qed

lemma collapse_round_length:
  assumes "docs \<noteq> []"
      and "split_list_of_docs docs length_func tmax = Inr groups"
      and "collapse_each f groups [] w = (Inr new_docs, w')"
  shows "length new_docs = length groups"
    and "length new_docs \<le> length docs"
    and "(\<exists>g \<in> set groups. length g \<noteq> 1) \<longrightarrow> length new_docs < length docs"
proof -
  from collapse_each_length [OF assms(3)] show n: "length new_docs = length groups" by simp
  from split_list_of_docs_nonempty [OF assms(2,1)] have ne: "\<forall>g \<in> set groups. g \<noteq> []" .
  have c: "concat groups = docs"
    using split_loop_concat [OF assms(2) [unfolded split_list_of_docs_def]] by simp
  from length_concat_groups [OF ne] n c show "length new_docs \<le> length docs" by simp
  show "(\<exists>g \<in> set groups. length g \<noteq> 1) \<longrightarrow> length new_docs < length docs"
    using length_concat_groups_strict [OF ne] n c by auto
qed

lemma collapse_while_returns_aux:
  assumes low: "lowers_singleton_cost length_func f tmax"
  shows "\<forall>docs n w. length docs = k \<longrightarrow> nat (n - tmax) = m \<longrightarrow> length_func docs = Some n \<longrightarrow>
           (\<exists>r. collapse_while length_func f tmax docs (Some n) w = Some r)"
proof (induction k arbitrary: m rule: less_induct)
  case (less k)
  note shorter = less.IH
  show ?case
  proof (induction m rule: less_induct)
    case (less m)
    note cheaper = less.IH
    show ?case
    proof (intro allI impI)
      fix docs n w
      assume len: "length docs = k" and m: "nat (n - tmax) = m"
        and n: "length_func docs = Some n"
      show "\<exists>r. collapse_while length_func f tmax docs (Some n) w = Some r"
      proof (cases "n > tmax")
        case False
        then show ?thesis by (subst collapse_while.simps) simp
      next
        case True
        show ?thesis
        proof (cases "split_list_of_docs docs length_func tmax")
          case (Inl e)
          with True show ?thesis by (subst collapse_while.simps) simp
        next
          case (Inr groups)
          obtain r w1 where ce: "collapse_each f groups [] w = (r, w1)"
            by (cases "collapse_each f groups [] w")
          show ?thesis
          proof (cases r)
            case (Inl e)
            with True Inr ce show ?thesis by (subst collapse_while.simps) simp
          next
            case new: (Inr new_docs)
            have unfold: "collapse_while length_func f tmax docs (Some n) w
                = collapse_while length_func f tmax new_docs (length_func new_docs) w1"
              using True Inr ce new by (subst collapse_while.simps) simp
            from ce new have ce': "collapse_each f groups [] w = (Inr new_docs, w1)" by simp
            show ?thesis
            proof (cases "length_func new_docs")
              case None
              then show ?thesis unfolding unfold by (subst collapse_while.simps) simp
            next
              case (Some n')
              have ne: "docs \<noteq> []"
              proof
                assume "docs = []"
                with Inr have "groups = [[]]" by (simp add: split_list_of_docs_def)
                with ce' show False by (auto simp: collapse_docs_def split: prod.splits)
              qed
              show ?thesis
              proof (cases "\<exists>g \<in> set groups. length g \<noteq> 1")
                case True
                with collapse_round_length(3) [OF ne Inr ce'] len
                have "length new_docs < k" by simp
                from shorter [OF this, of "nat (n' - tmax)"] Some
                show ?thesis unfolding unfold by simp
              next
                case False
                then have single: "\<forall>g \<in> set groups. length g = 1" by simp
                from low n \<open>n > tmax\<close> Inr single ce' Some have "n' < n"
                  unfolding lowers_singleton_cost_def by fastforce
                with \<open>n > tmax\<close> m have less: "nat (n' - tmax) < m" by auto
                from False collapse_round_length(1) [OF ne Inr ce']
                     split_loop_concat [OF Inr [unfolded split_list_of_docs_def]]
                have "length new_docs = length groups" by simp
                moreover have "length groups = length docs"
                proof -
                  from single have "length (concat groups) = length groups"
                    by (induction groups) simp_all
                  with split_loop_concat [OF Inr [unfolded split_list_of_docs_def]]
                  show ?thesis by simp
                qed
                ultimately have "length new_docs = k" using len by simp
                with cheaper [OF less] Some show ?thesis unfolding unfold by simp
              qed
            qed
          qed
        qed
      qed
    qed
  qed
qed

lemma collapse_while_returns:
  assumes "lowers_singleton_cost length_func f tmax"
  shows "\<exists>r. collapse_while length_func f tmax docs (length_func docs) w = Some r"
proof (cases "length_func docs")
  case None
  then show ?thesis by (subst collapse_while.simps) simp
next
  case (Some n)
  from collapse_while_returns_aux [OF assms, of "length docs" "nat (n - tmax)"] Some
  show ?thesis by simp
qed

text \<open>
  C3, as the code has it. A round on a non-empty list that completes returns as many
  documents as there are groups, at most as many as before, and fewer when some group is
  not a singleton. So the loop returns (with documents or with an error) for every
  collapse capability that lowers the cost of the rounds whose groups are all singletons;
  when it does not, the loop need not return.
\<close>

theorem collapse_round_progress:
  "(docs \<noteq> [] \<and> split_list_of_docs docs length_func tmax = Inr groups
      \<and> collapse_each f groups [] w = (Inr new_docs, w')
    \<longrightarrow> length new_docs = length groups \<and> length new_docs \<le> length docs
        \<and> ((\<exists>g \<in> set groups. length g \<noteq> 1) \<longrightarrow> length new_docs < length docs))
   \<and> (lowers_singleton_cost (chain_prompt_length (combine_documents_chain self))
         (chain_run (collapse_chain self)) (py_or tmax_arg (token_max self))
    \<longrightarrow> (\<exists>r. collapse self input_docs tmax_arg w0 = Some r))"
proof (intro conjI impI)
  assume a: "docs \<noteq> [] \<and> split_list_of_docs docs length_func tmax = Inr groups
      \<and> collapse_each f groups [] w = (Inr new_docs, w')"
  then have 1: "docs \<noteq> []" and 2: "split_list_of_docs docs length_func tmax = Inr groups"
    and 3: "collapse_each f groups [] w = (Inr new_docs, w')" by simp_all
  from collapse_round_length [OF 1 2 3]
  show "length new_docs = length groups" and "length new_docs \<le> length docs" by simp_all
  assume "\<exists>g \<in> set groups. length g \<noteq> 1"
  with collapse_round_length(3) [OF 1 2 3] show "length new_docs < length docs" by simp
next
  assume low: "lowers_singleton_cost (chain_prompt_length (combine_documents_chain self))
         (chain_run (collapse_chain self)) (py_or tmax_arg (token_max self))"
  from collapse_while_returns [OF low, of input_docs w0]
  obtain r where "collapse_while (chain_prompt_length (combine_documents_chain self))
         (chain_run (collapse_chain self)) (py_or tmax_arg (token_max self)) input_docs
         (chain_prompt_length (combine_documents_chain self) input_docs) w0 = Some r"
    by blast
  then show "\<exists>r. collapse self input_docs tmax_arg w0 = Some r"
    by (cases r) (auto simp: collapse_def Let_def split: sum.splits)
qed

lemma blank_collapse_each:
  "collapse_each (chain_run blank_chain) groups acc w = (Inr new_docs, w') \<Longrightarrow>
   \<forall>d \<in> set acc. page_content d = [] \<Longrightarrow> \<forall>d \<in> set new_docs. page_content d = []"
proof (induction groups arbitrary: acc w)
  case Nil
  then show ?case by simp
next
  case (Cons g groups)
  show ?case
  proof (cases g)
    case Nil
    with Cons.prems(1) show ?thesis
      by (simp add: collapse_docs_def blank_chain_def logged_def blank_content_def logging_chain_def)
  next
    case (Cons d0 rest)
    let ?new = "\<lparr>page_content = [],
                  metadata = as_metadata (merge_rest (str_items (metadata d0)) rest)\<rparr>"
    from Cons Cons.prems(1)
    have "collapse_each (chain_run blank_chain) groups (acc @ [?new]) (w @ [Collapse g])
            = (Inr new_docs, w')"
      by (simp add: collapse_docs_def blank_chain_def logged_def blank_content_def logging_chain_def)
    from Cons.IH [OF this] Cons.prems(2) show ?thesis by simp
  qed
qed

lemma total_chars_blank:
  "\<forall>d \<in> set docs. page_content d = [] \<Longrightarrow> total_chars docs = Some 0"
  by (induction docs) (simp_all add: total_chars_def)

lemma lowers_singleton_cost_blank:
  "lowers_singleton_cost total_chars (chain_run blank_chain) 3"
  unfolding lowers_singleton_cost_def
proof (intro allI impI)
  fix n :: int and w :: "call list" and groups new_docs w'
  assume big: "3 < n"
    and each: "collapse_each (chain_run blank_chain) groups [] w = (Inr new_docs, w')"
  from blank_collapse_each [OF each] have "total_chars new_docs = Some 0"
    by (simp add: total_chars_blank)
  with big show "case total_chars new_docs of None \<Rightarrow> True | Some n' \<Rightarrow> n' < n" by simp
qed

theorem collapse_round_progress_witness:
  "split_list_of_docs [doc ''aa'', doc ''bb'', doc ''c''] total_chars 3
     = Inr [[doc ''aa''], [doc ''bb'', doc ''c'']]
   \<and> collapse_each (chain_run blank_chain) [[doc ''aa''], [doc ''bb'', doc ''c'']] [] []
     = (Inr [doc [], doc []], [Collapse [doc ''aa''], Collapse [doc ''bb'', doc ''c'']])
   \<and> length [doc [], doc []] < length [doc ''aa'', doc ''bb'', doc ''c'']
   \<and> (\<exists>r. collapse (ReduceDocumentsChain blank_chain None None)
              [doc ''aa'', doc ''bb'', doc ''c''] (Some 3) [] = Some r)"
proof -
  let ?c = "ReduceDocumentsChain blank_chain None None"
  let ?docs = "[doc ''aa'', doc ''bb'', doc ''c'']"
  have ne: "?docs \<noteq> []" by simp
  have s: "split_list_of_docs ?docs total_chars 3 = Inr [[doc ''aa''], [doc ''bb'', doc ''c'']]"
    by (simp add: split_list_of_docs_def total_chars_def doc_def)
  have e: "collapse_each (chain_run blank_chain) [[doc ''aa''], [doc ''bb'', doc ''c'']] [] []
     = (Inr [doc [], doc []], [Collapse [doc ''aa''], Collapse [doc ''bb'', doc ''c'']])"
    by (simp add: blank_chain_def logged_def blank_content_def logging_chain_def collapse_docs_def doc_def merge_rest_def
          str_items_def as_metadata_def)
  have g: "\<exists>g \<in> set [[doc ''aa''], [doc ''bb'', doc ''c'']]. length g \<noteq> 1" by simp
  have low: "lowers_singleton_cost (chain_prompt_length (combine_documents_chain ?c))
         (chain_run (collapse_chain ?c)) (py_or (Some 3) (token_max ?c))"
    using lowers_singleton_cost_blank
    by (simp add: ReduceDocumentsChain_def collapse_chain_def py_or_def blank_chain_def logged_def blank_content_def
          logging_chain_def)
  from collapse_round_progress
         [of ?docs total_chars 3 "[[doc ''aa''], [doc ''bb'', doc ''c'']]"
             "chain_run blank_chain" "[]" "[doc [], doc []]"
             "[Collapse [doc ''aa''], Collapse [doc ''bb'', doc ''c'']]" ?c "Some 3" ?docs "[]"]
       ne s e g low
  show ?thesis by simp
qed

subsection \<open>The three forms of the loop\<close>







subsection \<open>The loop and the pipeline, round by round\<close>




subsection \<open>Groups run in their order\<close>








subsection \<open>Groups run in any order\<close>















end
